theory Spec2Isabelle
  imports Complex_Main "HOL-Library.Char_ord" "HOL-Library.List_Lexorder"
begin

section \<open>Python values, errors and outcomes\<close>

text \<open>
  The exceptions the adapter class of \<^verbatim>\<open>dirty_cat/pretrained_fastText.py\<close> can raise.
  \<open>AssertionError\<close> and \<open>FileNotFoundError\<close> carry the message the source builds.
\<close>

datatype error =
    AssertionError string
  | FileNotFoundError string
  | IndexError
  | TypeError
  | ValueError
  | AttributeError
  | LibraryError string

text \<open>
  The items held by the array \<^verbatim>\<open>np.asarray(X)\<close>: a \<^verbatim>\<open>str\<close> (or \<^verbatim>\<open>np.str_\<close>) value,
  or a value of another type, here an integer.
\<close>

datatype pyval = PyStr string | PyInt int

fun isinstance_str :: "pyval \<Rightarrow> bool" where
  "isinstance_str (PyStr s) = True"
| "isinstance_str (PyInt i) = False"

fun isinstance_int :: "pyval \<Rightarrow> bool" where
  "isinstance_int (PyStr s) = False"
| "isinstance_int (PyInt i) = True"

fun str_of :: "pyval \<Rightarrow> string" where
  "str_of (PyStr s) = s"
| "str_of (PyInt i) = []"

fun int_of :: "pyval \<Rightarrow> int" where
  "int_of (PyInt i) = i"
| "int_of (PyStr s) = 0"

subsection \<open>Formatting: \<^verbatim>\<open>str(int)\<close>, the \<^verbatim>\<open>repr\<close> of a shape tuple, \<^verbatim>\<open>os.path.join\<close>\<close>

definition digit_char :: "nat \<Rightarrow> char" where
  "digit_char d = ''0123456789'' ! d"

function str_nat :: "nat \<Rightarrow> string" where
  "str_nat n = (if n < 10 then [digit_char n] else str_nat (n div 10) @ [digit_char (n mod 10)])"
  by pat_completeness auto
termination
  by (relation "measure id") auto

declare str_nat.simps [simp del]

definition str_int :: "int \<Rightarrow> string" where
  "str_int i = (if i < 0 then CHR ''-'' # str_nat (nat (- i)) else str_nat (nat i))"

fun join_comma :: "string list \<Rightarrow> string" where
  "join_comma [] = []"
| "join_comma [s] = s"
| "join_comma (s # t # ts) = s @ '', '' @ join_comma (t # ts)"

text \<open>\<^verbatim>\<open>repr\<close> of a tuple of non-negative integers: \<^verbatim>\<open>()\<close>, \<^verbatim>\<open>(5,)\<close>, \<^verbatim>\<open>(5, 2)\<close>.\<close>

definition tuple_repr :: "nat list \<Rightarrow> string" where
  "tuple_repr sh =
     (case sh of
        [n] \<Rightarrow> ''('' @ str_nat n @ '',)''
      | _ \<Rightarrow> ''('' @ join_comma (map str_nat sh) @ '')'')"

text \<open>\<^verbatim>\<open>os.path.join(a, b)\<close> of \<^verbatim>\<open>posixpath\<close>, for two components.\<close>

definition os_path_join :: "string \<Rightarrow> string \<Rightarrow> string" where
  "os_path_join a b =
     (if b \<noteq> [] \<and> hd b = CHR ''/'' then b
      else if a = [] \<or> last a = CHR ''/'' then a @ b
      else a @ ''/'' @ b)"

section \<open>The collaborators: file store and fastText library\<close>

text \<open>
  The storage directory is part of a file system: a map from paths to file contents.
  \<^verbatim>\<open>os.path.isfile\<close> asks whether a path is in its domain.
\<close>

type_synonym 'f filesystem = "string \<rightharpoonup> 'f"

definition os_path_isfile :: "'f filesystem \<Rightarrow> string \<Rightarrow> bool" where
  "os_path_isfile fs p = (fs p \<noteq> None)"

text \<open>
  The \<^verbatim>\<open>fasttext\<close> package is not part of the repository: its operations are parameters.
  \<open>'f\<close> is the content of a binary model file, \<open>'m\<close> the state of a loaded model.
  \<^item> \<open>ft_load_model\<close>: \<^verbatim>\<open>fasttext.load_model(path)\<close>, from the content of the file at the path;
  \<^item> \<open>ft_reduce_model\<close>: \<^verbatim>\<open>fasttext.util.reduce_model(model, dim)\<close>, which works in place:
    it gives the model's state afterwards and the exception it raised, if any;
  \<^item> \<open>ft_save_model\<close>: the content \<^verbatim>\<open>model.save_model(name)\<close> writes;
  \<^item> \<open>get_sentence_vector\<close>: \<^verbatim>\<open>model.get_sentence_vector(x)\<close>, the embedding provider.
\<close>

record ('f, 'm) fasttext =
  ft_load_model :: "'f \<Rightarrow> error + 'm"
  ft_reduce_model :: "'m \<Rightarrow> int \<Rightarrow> 'm \<times> error option"
  ft_save_model :: "'m \<Rightarrow> 'f"
  get_sentence_vector :: "'m \<Rightarrow> pyval \<Rightarrow> error + real list"

section \<open>The class \<^verbatim>\<open>PretrainedFastText\<close>\<close>

text \<open>
  The attributes of an instance. \<open>ft_model\<close> is \<open>None\<close> while the attribute is not set
  (\<^verbatim>\<open>hasattr(self, 'ft_model')\<close> is false).
\<close>

record 'm embedder =
  n_components :: int
  language :: string
  bin_dir :: string
  file_path :: string
  ft_model :: "'m option"

text \<open>
  A method that mutates \<^verbatim>\<open>self\<close> either returns or raises; in both cases the instance
  is left in some state.
\<close>

datatype 'm outcome = Returned "'m embedder" | Raised error "'m embedder"

subsection \<open>\<^verbatim>\<open>load_model\<close>\<close>

definition model_file_name :: "string \<Rightarrow> int \<Rightarrow> string" where
  "model_file_name lang n = ''cc.'' @ lang @ ''.'' @ str_int n @ ''.bin''"

definition not_found_message :: "string \<Rightarrow> string" where
  "not_found_message file_path_300 =
     ''The file '' @ file_path_300 @ '' doesn'' @ [CHR 0x27] @ ''t exist.''
     @ replicate 16 CHR '' '' @ ''Download it with self.download_model(), or from''
     @ replicate 16 CHR '' '' @ ''https://fasttext.cc/docs/en/crawl-vectors.html.''
     @ replicate 16 CHR '' '' @ ''Then load it manually with self.load_model().''"

definition load_model :: "('f, 'm) fasttext \<Rightarrow> 'f filesystem \<Rightarrow> 'm embedder \<Rightarrow> 'm outcome" where
  "load_model L fs self =
     (let file_path_300 = os_path_join (bin_dir self) (model_file_name (language self) 300) in
      if os_path_isfile fs (file_path self) then
        (case ft_load_model L (the (fs (file_path self))) of
           Inl e \<Rightarrow> Raised e self
         | Inr m \<Rightarrow> Returned (self\<lparr>ft_model := Some m\<rparr>))
      else if os_path_isfile fs file_path_300 then
        (case ft_load_model L (the (fs file_path_300)) of
           Inl e \<Rightarrow> Raised e self
         | Inr m \<Rightarrow>
             (case ft_reduce_model L m (n_components self) of
                (m', None) \<Rightarrow> Returned (self\<lparr>ft_model := Some m'\<rparr>)
              | (m', Some e) \<Rightarrow> Raised e (self\<lparr>ft_model := Some m'\<rparr>)))
      else Raised (FileNotFoundError (not_found_message file_path_300)) self)"

subsection \<open>\<^verbatim>\<open>__init__\<close>\<close>

text \<open>The attribute assignments of the constructor, before it calls \<^verbatim>\<open>load_model\<close>.\<close>

definition init_attributes :: "int \<Rightarrow> string \<Rightarrow> string \<Rightarrow> string option \<Rightarrow> 'm embedder" where
  "init_attributes n lang dir file_name =
     \<lparr> n_components = (if n < 300 then n else 300),
       language = lang,
       bin_dir = dir,
       file_path = os_path_join dir
         (case file_name of None \<Rightarrow> model_file_name lang n | Some name \<Rightarrow> name),
       ft_model = None \<rparr>"

text \<open>
  The constructor gives the file system as it leaves it, and the new instance unless
  \<^verbatim>\<open>load_model\<close> raised.
\<close>

definition init :: "('f, 'm) fasttext \<Rightarrow> 'f filesystem \<Rightarrow> int \<Rightarrow> string \<Rightarrow> string \<Rightarrow> string option
    \<Rightarrow> 'f filesystem \<times> (error + 'm embedder)" where
  "init L fs n lang dir file_name =
     (case load_model L fs (init_attributes n lang dir file_name) of
        Returned self \<Rightarrow> (fs, Inr self)
      | Raised e self \<Rightarrow> (fs, Inl e))"

subsection \<open>\<^verbatim>\<open>save_model\<close>, \<^verbatim>\<open>reduce_model\<close>, \<^verbatim>\<open>fit\<close>\<close>

text \<open>
  \<^verbatim>\<open>save_model\<close> changes to \<^verbatim>\<open>bin_dir\<close> and writes the file there: the one method that
  creates a file.
\<close>

definition save_model :: "('f, 'm) fasttext \<Rightarrow> 'f filesystem \<Rightarrow> 'm embedder \<Rightarrow> string option
    \<Rightarrow> 'f filesystem \<times> (error + unit)" where
  "save_model L fs self file_name =
     (let name = (case file_name of
                    None \<Rightarrow> model_file_name (language self) (n_components self)
                  | Some name \<Rightarrow> name) in
      case ft_model self of
        None \<Rightarrow> (fs, Inl AttributeError)
      | Some m \<Rightarrow> (fs(os_path_join (bin_dir self) name \<mapsto> ft_save_model L m), Inr ()))"

definition reduce_message :: "int \<Rightarrow> int \<Rightarrow> string" where
  "reduce_message cur n =
     ''Cannot expand embedding'' @ replicate 12 CHR '' ''
     @ ''size from '' @ str_int cur @ '' to '' @ str_int n @ ''.''"

definition reduce_model :: "('f, 'm) fasttext \<Rightarrow> 'm embedder \<Rightarrow> int \<Rightarrow> 'm outcome" where
  "reduce_model L self n =
     (if \<not> n < n_components self
      then Raised (AssertionError (reduce_message (n_components self) n)) self
      else
        (let self1 = self\<lparr>n_components := n\<rparr> in
         case ft_model self1 of
           None \<Rightarrow> Raised AttributeError self1
         | Some m \<Rightarrow>
             (case ft_reduce_model L m (n_components self1) of
                (m', None) \<Rightarrow> Returned (self1\<lparr>ft_model := Some m'\<rparr>)
              | (m', Some e) \<Rightarrow> Raised e (self1\<lparr>ft_model := Some m'\<rparr>))))"

definition not_loaded_message :: string where
  "not_loaded_message =
     ''The fastText model hasn'' @ [CHR 0x27] @ ''t been'' @ replicate 12 CHR '' ''
     @ ''automatically loaded. Load it manually with self.load_model().''"

definition fit :: "'m embedder \<Rightarrow> error + 'm embedder" where
  "fit self =
     (if ft_model self = None then Inl (AssertionError not_loaded_message) else Inr self)"

section \<open>Arrays\<close>

text \<open>
  The array \<^verbatim>\<open>np.asarray(X)\<close>: its shape and its items in row-major order. An array is
  well formed when it holds as many items as its shape says.
\<close>

record ndarray =
  shape :: "nat list"
  items :: "pyval list"

definition ndim :: "ndarray \<Rightarrow> nat" where
  "ndim X = length (shape X)"

definition wellformed :: "ndarray \<Rightarrow> bool" where
  "wellformed X = (length (items X) = prod_list (shape X))"

text \<open>\<^verbatim>\<open>X[:, 0]\<close> of a 2-D array: the first item of every row.\<close>

definition column0 :: "ndarray \<Rightarrow> ndarray" where
  "column0 X =
     \<lparr> shape = [shape X ! 0],
       items = map (\<lambda>i. items X ! (i * (shape X ! 1))) [0..<shape X ! 0] \<rparr>"

text \<open>\<^verbatim>\<open>X[0]\<close> of a 1-D array.\<close>

definition getitem0 :: "ndarray \<Rightarrow> error + pyval" where
  "getitem0 X = (if shape X ! 0 = 0 then Inl IndexError else Inr (items X ! 0))"

text \<open>
  \<^verbatim>\<open>np.unique(ar, return_inverse=True)\<close> of a 1-D array: the sorted distinct values
  and, for every position, the index of its value among them. Sorting compares the items,
  and Python does not order a \<^verbatim>\<open>str\<close> and an \<^verbatim>\<open>int\<close>.
\<close>

fun index_of :: "'a list \<Rightarrow> 'a \<Rightarrow> nat" where
  "index_of [] y = 0"
| "index_of (x # xs) y = (if x = y then 0 else Suc (index_of xs y))"

definition unique_inverse :: "('a::linorder) list \<Rightarrow> 'a list \<times> nat list" where
  "unique_inverse xs = (let u = remdups_adj (sort xs) in (u, map (index_of u) xs))"

definition np_unique :: "pyval list \<Rightarrow> error + (pyval list \<times> nat list)" where
  "np_unique ar =
     (if list_all isinstance_str ar then
        (case unique_inverse (map str_of ar) of (u, lookup) \<Rightarrow> Inr (map PyStr u, lookup))
      else if list_all isinstance_int ar then
        (case unique_inverse (map int_of ar) of (u, lookup) \<Rightarrow> Inr (map PyInt u, lookup))
      else Inl TypeError)"

text \<open>\<^verbatim>\<open>np.empty((k, n))\<close>; the content of the new array is arbitrary, here zeros.\<close>

definition np_empty :: "nat \<Rightarrow> int \<Rightarrow> error + real list list" where
  "np_empty k n = (if n < 0 then Inl ValueError else Inr (replicate k (replicate (nat n) 0)))"

text \<open>
  The value a row of width \<open>n\<close> takes in \<^verbatim>\<open>out[idx] = v\<close>: \<open>v\<close> itself when it has
  \<open>n\<close> items, its single item broadcast when it has one, a \<^verbatim>\<open>ValueError\<close> otherwise.
\<close>

definition broadcast_row :: "int \<Rightarrow> real list \<Rightarrow> error + real list" where
  "broadcast_row n v =
     (if int (length v) = n then Inr v
      else if length v = 1 then Inr (replicate (nat n) (hd v))
      else Inl ValueError)"

subsection \<open>\<^verbatim>\<open>transform\<close>\<close>

definition shape_message :: "nat list \<Rightarrow> string" where
  "shape_message sh =
     ''ERROR:'' @ replicate 8 CHR '' '' @ ''shape '' @ tuple_repr sh
     @ '' of input array is not supported.''"

definition shape_supported :: "ndarray \<Rightarrow> bool" where
  "shape_supported X = (ndim X = 1 \<or> (ndim X = 2 \<and> shape X ! 1 = 1))"

text \<open>Lines 184 to 188: the check of the shape, and the flattening of a single column.\<close>

definition check_shape :: "ndarray \<Rightarrow> error + ndarray" where
  "check_shape X =
     (if \<not> shape_supported X then Inl (AssertionError (shape_message (shape X)))
      else if ndim X = 2 then Inr (column0 X)
      else Inr X)"

text \<open>Line 190: the check of the type of the first item.\<close>

definition check_first_str :: "ndarray \<Rightarrow> error + unit" where
  "check_first_str X =
     (case getitem0 X of
        Inl e \<Rightarrow> Inl e
      | Inr x0 \<Rightarrow>
          if \<not> isinstance_str x0 then Inl (AssertionError ''ERROR: Input data is not string.'')
          else Inr ())"

text \<open>
  The loop of lines 194 and 195 over \<^verbatim>\<open>enumerate(unq_X)\<close>. It carries the rows filled so
  far and the log of the calls made to the embedding provider, and stops at the first
  exception.
\<close>

fun embed_unique :: "('f, 'm) fasttext \<Rightarrow> 'm embedder \<Rightarrow> nat \<Rightarrow> pyval list
    \<Rightarrow> pyval list \<Rightarrow> real list list \<Rightarrow> pyval list \<times> (error + real list list)" where
  "embed_unique L self idx [] calls out = (calls, Inr out)"
| "embed_unique L self idx (x # xs) calls out =
     (case ft_model self of
        None \<Rightarrow> (calls, Inl AttributeError)
      | Some m \<Rightarrow>
          (case get_sentence_vector L m x of
             Inl e \<Rightarrow> (calls @ [x], Inl e)
           | Inr v \<Rightarrow>
               (case broadcast_row (n_components self) v of
                  Inl e \<Rightarrow> (calls @ [x], Inl e)
                | Inr row \<Rightarrow> embed_unique L self (Suc idx) xs (calls @ [x]) (out[idx := row]))))"

text \<open>
  \<^verbatim>\<open>transform\<close> gives the calls it made to the embedding provider, in order, and the
  matrix it returns or the exception it raises.
\<close>

definition transform :: "('f, 'm) fasttext \<Rightarrow> 'm embedder \<Rightarrow> ndarray
    \<Rightarrow> pyval list \<times> (error + real list list)" where
  "transform L self X0 =
     (case check_shape X0 of
        Inl e \<Rightarrow> ([], Inl e)
      | Inr X \<Rightarrow>
          (case check_first_str X of
             Inl e \<Rightarrow> ([], Inl e)
           | Inr _ \<Rightarrow>
               (case np_unique (items X) of
                  Inl e \<Rightarrow> ([], Inl e)
                | Inr (unq_X, lookup) \<Rightarrow>
                    (case np_empty (length unq_X) (n_components self) of
                       Inl e \<Rightarrow> ([], Inl e)
                     | Inr unq_X_out \<Rightarrow>
                         (case embed_unique L self 0 unq_X [] unq_X_out of
                            (calls, Inl e) \<Rightarrow> (calls, Inl e)
                          | (calls, Inr filled) \<Rightarrow>
                              (calls, Inr (map (\<lambda>j. filled ! j) lookup)))))))"

text \<open>The naive path the spec compares with: one provider call for every row.\<close>

definition embed_each_row :: "('f, 'm) fasttext \<Rightarrow> 'm \<Rightarrow> pyval list \<Rightarrow> (error + real list) list" where
  "embed_each_row L m xs = map (get_sentence_vector L m) xs"

section \<open>A small provider for the examples\<close>

text \<open>
  A model is its dimension; a file holds a dimension; the vector of a string repeats its
  length. Reducing to a dimension that is not between 1 and the current one fails.
\<close>

definition toy :: "(nat, nat) fasttext" where
  "toy =
     \<lparr> ft_load_model = (\<lambda>f. Inr f),
       ft_reduce_model = (\<lambda>m k. if 0 < k \<and> k \<le> int m then (nat k, None) else (m, Some ValueError)),
       ft_save_model = (\<lambda>m. m),
       get_sentence_vector = (\<lambda>m x.
          case x of PyStr s \<Rightarrow> Inr (replicate m (real (length s))) | PyInt i \<Rightarrow> Inl AttributeError) \<rparr>"

definition toy_embedder :: "nat embedder" where
  "toy_embedder =
     \<lparr> n_components = 2, language = ''en'', bin_dir = ''bins'',
       file_path = ''bins/cc.en.2.bin'', ft_model = Some 2 \<rparr>"

definition cat_horse_cat :: ndarray where
  "cat_horse_cat = \<lparr> shape = [3], items = [PyStr ''cat'', PyStr ''horse'', PyStr ''cat''] \<rparr>"

definition five_by_two :: ndarray where
  "five_by_two = \<lparr> shape = [5, 2], items = replicate 10 (PyStr ''cat'') \<rparr>"



definition only_300 :: "nat filesystem" where
  "only_300 = [''./fastText_bins/cc.en.300.bin'' \<mapsto> 300]"

section \<open>Lemmas about the array operations and the loop\<close>

lemma index_of_bound: "y \<in> set u \<Longrightarrow> index_of u y < length u"
  by (induction u) auto

lemma index_of_nth: "y \<in> set u \<Longrightarrow> u ! index_of u y = y"
  by (induction u) auto

lemma distinct_remdups_adj_sorted: "sorted xs \<Longrightarrow> distinct (remdups_adj xs)"
  by (induction xs rule: remdups_adj.induct) (auto split: if_split_asm)

lemma unique_inverse_set: "set (fst (unique_inverse xs)) = set xs"
  by (simp add: unique_inverse_def Let_def)

lemma unique_inverse_distinct: "distinct (fst (unique_inverse xs))"
  by (simp add: unique_inverse_def Let_def distinct_remdups_adj_sorted)

lemma unique_inverse_sorted: "sorted (fst (unique_inverse xs))"
  by (simp add: unique_inverse_def Let_def)

lemma unique_inverse_card: "length (fst (unique_inverse xs)) = card (set xs)"
  using distinct_card [OF unique_inverse_distinct, of xs] by (simp add: unique_inverse_set)

lemma unique_inverse_length: "length (snd (unique_inverse xs)) = length xs"
  by (simp add: unique_inverse_def Let_def)

lemma unique_inverse_lookup:
  assumes "i < length xs"
  shows "snd (unique_inverse xs) ! i < length (fst (unique_inverse xs))"
    and "fst (unique_inverse xs) ! (snd (unique_inverse xs) ! i) = xs ! i"
proof -
  have mem: "xs ! i \<in> set (remdups_adj (sort xs))" using assms by simp
  show "snd (unique_inverse xs) ! i < length (fst (unique_inverse xs))"
    using assms index_of_bound [OF mem] by (simp add: unique_inverse_def Let_def)
  show "fst (unique_inverse xs) ! (snd (unique_inverse xs) ! i) = xs ! i"
    using assms index_of_nth [OF mem] by (simp add: unique_inverse_def Let_def)
qed

lemma embed_unique_calls:
  "\<exists>k\<le>length xs. fst (embed_unique L self idx xs calls out) = calls @ take k xs"
proof (induction xs arbitrary: idx calls out)
  case Nil
  show ?case by simp
next
  case (Cons x xs)
  show ?case
  proof (cases "ft_model self")
    case None
    then have "fst (embed_unique L self idx (x # xs) calls out) = calls @ take 0 (x # xs)" by simp
    then show ?thesis by blast
  next
    case (Some m)
    show ?thesis
    proof (cases "get_sentence_vector L m x")
      case (Inl e)
      with Some have "fst (embed_unique L self idx (x # xs) calls out) = calls @ take 1 (x # xs)" by simp
      then show ?thesis by (metis One_nat_def Suc_leI length_Cons zero_less_Suc)
    next
      case (Inr v)
      show ?thesis
      proof (cases "broadcast_row (n_components self) v")
        case (Inl e)
        with Some Inr have "fst (embed_unique L self idx (x # xs) calls out) = calls @ take 1 (x # xs)" by simp
        then show ?thesis by (metis One_nat_def Suc_leI length_Cons zero_less_Suc)
      next
        case r: (Inr row)
        from Cons.IH [of "Suc idx" "calls @ [x]" "out[idx := row]"]
        obtain k where k: "k \<le> length xs"
          "fst (embed_unique L self (Suc idx) xs (calls @ [x]) (out[idx := row])) = (calls @ [x]) @ take k xs"
          by blast
        with Some Inr r have "fst (embed_unique L self idx (x # xs) calls out) = calls @ take (Suc k) (x # xs)"
          by simp
        with k(1) show ?thesis by (metis Suc_le_mono length_Cons)
      qed
    qed
  qed
qed

lemma embed_unique_Inr:
  "embed_unique L self idx xs calls out = (calls', Inr out') \<Longrightarrow> idx + length xs \<le> length out \<Longrightarrow>
     calls' = calls @ xs \<and> length out' = length out
     \<and> (\<forall>j<idx. out' ! j = out ! j)
     \<and> (\<forall>j<length xs. \<exists>m v. ft_model self = Some m \<and> get_sentence_vector L m (xs ! j) = Inr v
            \<and> broadcast_row (n_components self) v = Inr (out' ! (idx + j)))"
proof (induction xs arbitrary: idx calls out)
  case Nil
  then show ?case by simp
next
  case (Cons x xs)
  from Cons.prems(1) obtain m v row where
    m: "ft_model self = Some m" and v: "get_sentence_vector L m x = Inr v"
    and row: "broadcast_row (n_components self) v = Inr row"
    and rest: "embed_unique L self (Suc idx) xs (calls @ [x]) (out[idx := row]) = (calls', Inr out')"
    by (auto split: option.splits sum.splits)
  from Cons.prems(2) have le: "Suc idx + length xs \<le> length (out[idx := row])" by simp
  note IH = Cons.IH [OF rest le]
  have c: "calls' = calls @ x # xs" using IH by simp
  have l: "length out' = length out" using IH by simp
  have keep: "\<forall>j<idx. out' ! j = out ! j"
  proof (intro allI impI)
    fix j assume "j < idx"
    then have "out' ! j = (out[idx := row]) ! j" using IH by simp
    with \<open>j < idx\<close> show "out' ! j = out ! j" by simp
  qed
  have here: "out' ! idx = row"
  proof -
    have "out' ! idx = (out[idx := row]) ! idx" using IH by simp
    with Cons.prems(2) show ?thesis by simp
  qed
  have rows: "\<forall>j<length (x # xs). \<exists>m v. ft_model self = Some m
      \<and> get_sentence_vector L m ((x # xs) ! j) = Inr v
      \<and> broadcast_row (n_components self) v = Inr (out' ! (idx + j))"
  proof (intro allI impI)
    fix j assume j: "j < length (x # xs)"
    show "\<exists>m v. ft_model self = Some m \<and> get_sentence_vector L m ((x # xs) ! j) = Inr v
      \<and> broadcast_row (n_components self) v = Inr (out' ! (idx + j))"
    proof (cases j)
      case 0
      with m v row here show ?thesis by simp
    next
      case (Suc j')
      with j have "j' < length xs" by simp
      with IH obtain m' v' where "ft_model self = Some m'" "get_sentence_vector L m' (xs ! j') = Inr v'"
        "broadcast_row (n_components self) v' = Inr (out' ! (Suc idx + j'))" by blast
      with Suc show ?thesis by simp
    qed
  qed
  from c l keep rows show ?case by blast
qed

lemma embed_unique_succeeds:
  "ft_model self = Some m \<Longrightarrow>
   \<forall>x\<in>set xs. \<exists>v row. get_sentence_vector L m x = Inr v \<and> broadcast_row (n_components self) v = Inr row \<Longrightarrow>
   \<exists>out'. embed_unique L self idx xs calls out = (calls @ xs, Inr out')"
proof (induction xs arbitrary: idx calls out)
  case Nil
  then show ?case by simp
next
  case (Cons x xs)
  from Cons.prems(2) obtain v row where v: "get_sentence_vector L m x = Inr v"
    and row: "broadcast_row (n_components self) v = Inr row" by auto
  from Cons.prems(2) have "\<forall>x\<in>set xs. \<exists>v row. get_sentence_vector L m x = Inr v \<and> broadcast_row (n_components self) v = Inr row"
    by simp
  from Cons.IH [OF Cons.prems(1) this, of "Suc idx" "calls @ [x]" "out[idx := row]"]
  show ?case using Cons.prems(1) v row by simp
qed

lemma shape_supported_cases:
  "shape_supported X \<longleftrightarrow> (\<exists>n. shape X = [n] \<or> shape X = [n, 1])"
proof
  assume "shape_supported X"
  then consider "length (shape X) = 1" | "length (shape X) = 2" "shape X ! 1 = 1"
    by (auto simp: shape_supported_def ndim_def)
  then show "\<exists>n. shape X = [n] \<or> shape X = [n, 1]"
  proof cases
    case 1
    then obtain a where "shape X = [a]" by (cases "shape X") auto
    then show ?thesis by blast
  next
    case 2
    then obtain a b where "shape X = [a, b]"
      by (cases "shape X"; cases "tl (shape X)") auto
    with 2 show ?thesis by auto
  qed
next
  assume "\<exists>n. shape X = [n] \<or> shape X = [n, 1]"
  then show "shape_supported X" by (auto simp: shape_supported_def ndim_def)
qed

lemma check_shape_Inr_iff: "(\<exists>X1. check_shape X = Inr X1) \<longleftrightarrow> shape_supported X"
  by (simp add: check_shape_def)

lemma check_shape_flat:
  assumes "wellformed X" and "check_shape X = Inr X1"
  shows "items X1 = items X" and "shape X1 = [length (items X)]"
proof -
  from assms(2) have "shape_supported X" using check_shape_Inr_iff by blast
  then obtain n where n: "shape X = [n] \<or> shape X = [n, 1]"
    using shape_supported_cases by blast
  then have len: "length (items X) = n" using assms(1) by (auto simp: wellformed_def)
  from n show "items X1 = items X"
  proof
    assume "shape X = [n]"
    with assms(2) show ?thesis by (simp add: check_shape_def ndim_def split: if_splits)
  next
    assume s: "shape X = [n, 1]"
    with assms(2) have "X1 = column0 X" by (simp add: check_shape_def ndim_def split: if_splits)
    with s have "items X1 = map ((!) (items X)) [0..<n]" by (simp add: column0_def)
    with len show ?thesis using map_nth [of "items X"] by simp
  qed
  from n show "shape X1 = [length (items X)]"
  proof
    assume s: "shape X = [n]"
    with assms(2) have "X1 = X" by (simp add: check_shape_def ndim_def split: if_splits)
    with s len show ?thesis by simp
  next
    assume s: "shape X = [n, 1]"
    with assms(2) have "X1 = column0 X" by (simp add: check_shape_def ndim_def split: if_splits)
    with s len show ?thesis by (simp add: column0_def)
  qed
qed

lemma check_first_str_iff:
  assumes "shape X = [length (items X)]"
  shows "check_first_str X = Inr () \<longleftrightarrow> (items X \<noteq> [] \<and> isinstance_str (hd (items X)))"
proof (cases "items X")
  case Nil
  with assms show ?thesis by (simp add: check_first_str_def getitem0_def)
next
  case (Cons x xs)
  with assms show ?thesis by (simp add: check_first_str_def getitem0_def)
qed

lemma unique_inverse_wrap:
  assumes allP: "list_all P ar" and wrap_proj: "\<And>x. P x \<Longrightarrow> C (proj x) = x" and inj: "inj C"
    and u: "u = map C (fst (unique_inverse (map proj ar)))"
    and lk: "lk = snd (unique_inverse (map proj ar))"
  shows "distinct u \<and> set u = set ar \<and> length u = card (set ar) \<and> length lk = length ar
     \<and> (\<forall>i<length ar. lk ! i < length u \<and> u ! (lk ! i) = ar ! i)"
proof -
  have ar: "map C (map proj ar) = ar"
    using allP wrap_proj by (induction ar) auto
  have d: "distinct u"
    unfolding u using inj unique_inverse_distinct [of "map proj ar"]
    by (simp add: distinct_map inj_on_def inj_def)
  have s: "set u = set ar"
  proof -
    have "set u = C ` proj ` set ar" unfolding u by (simp only: set_map unique_inverse_set)
    moreover have "set (map C (map proj ar)) = C ` proj ` set ar" by (simp only: set_map)
    ultimately show ?thesis by (simp only: ar)
  qed
  have c: "length u = card (set ar)" using distinct_card [OF d] s by simp
  have l: "length lk = length ar" unfolding lk by (simp add: unique_inverse_length)
  have idx: "\<forall>i<length ar. lk ! i < length u \<and> u ! (lk ! i) = ar ! i"
  proof (intro allI impI)
    fix i assume i: "i < length ar"
    then have i': "i < length (map proj ar)" by simp
    from unique_inverse_lookup [OF i']
    have b: "lk ! i < length (fst (unique_inverse (map proj ar)))"
      and e: "fst (unique_inverse (map proj ar)) ! (lk ! i) = map proj ar ! i"
      unfolding lk by simp_all
    from b have b': "lk ! i < length u" unfolding u by simp
    have "u ! (lk ! i) = C (map proj ar ! i)" unfolding u using b e by simp
    also have "\<dots> = map C (map proj ar) ! i" using i by simp
    finally have "u ! (lk ! i) = ar ! i" using ar by simp
    with b' show "lk ! i < length u \<and> u ! (lk ! i) = ar ! i" by simp
  qed
  from d s c l idx show ?thesis by blast
qed

lemma np_unique_Inr_conj:
  assumes "np_unique ar = Inr (u, lk)"
  shows "distinct u \<and> set u = set ar \<and> length u = card (set ar) \<and> length lk = length ar
     \<and> (\<forall>i<length ar. lk ! i < length u \<and> u ! (lk ! i) = ar ! i)"
proof (cases "list_all isinstance_str ar")
  case True
  with assms have u: "u = map PyStr (fst (unique_inverse (map str_of ar)))"
    and lk: "lk = snd (unique_inverse (map str_of ar))"
    by (auto simp: np_unique_def split: prod.splits)
  have wrap_proj: "\<And>x. isinstance_str x \<Longrightarrow> PyStr (str_of x) = x"
    by (case_tac x) auto
  show ?thesis
    by (rule unique_inverse_wrap [OF True wrap_proj _ u lk]) (auto simp: inj_def)
next
  case False
  with assms have alli: "list_all isinstance_int ar"
    by (auto simp: np_unique_def split: if_splits)
  with False assms have u: "u = map PyInt (fst (unique_inverse (map int_of ar)))"
    and lk: "lk = snd (unique_inverse (map int_of ar))"
    by (auto simp: np_unique_def split: prod.splits)
  have wrap_proj: "\<And>x. isinstance_int x \<Longrightarrow> PyInt (int_of x) = x"
    by (case_tac x) auto
  show ?thesis
    by (rule unique_inverse_wrap [OF alli wrap_proj _ u lk]) (auto simp: inj_def)
qed

lemma np_unique_Inr:
  assumes "np_unique ar = Inr (u, lk)"
  shows "distinct u" and "set u = set ar" and "length u = card (set ar)"
    and "length lk = length ar"
    and "\<forall>i<length ar. lk ! i < length u \<and> u ! (lk ! i) = ar ! i"
  using np_unique_Inr_conj [OF assms] by blast+

lemma np_unique_str_first:
  assumes "ar \<noteq> []" and "isinstance_str (hd ar)"
  shows "(\<exists>r. np_unique ar = Inr r) \<longleftrightarrow> list_all isinstance_str ar"
    and "\<not> list_all isinstance_str ar \<Longrightarrow> np_unique ar = Inl TypeError"
proof -
  from assms have ni: "\<not> list_all isinstance_int ar"
    by (cases ar; cases "hd ar") auto
  then show "(\<exists>r. np_unique ar = Inr r) \<longleftrightarrow> list_all isinstance_str ar"
    by (auto simp: np_unique_def split: prod.splits)
  from ni show "\<not> list_all isinstance_str ar \<Longrightarrow> np_unique ar = Inl TypeError"
    by (simp add: np_unique_def)
qed

lemma broadcast_row_length:
  "broadcast_row n v = Inr row \<Longrightarrow> 0 \<le> n \<Longrightarrow> int (length row) = n"
  by (auto simp: broadcast_row_def split: if_splits)

lemma broadcast_row_exact:
  "int (length v) = n \<Longrightarrow> broadcast_row n v = Inr v"
  by (simp add: broadcast_row_def)

text \<open>What a returning call of transform went through.\<close>

lemma transform_Inr_dest:
  assumes "transform L self X0 = (calls, Inr M)"
  obtains X u lk filled where
    "check_shape X0 = Inr X" "check_first_str X = Inr ()" "np_unique (items X) = Inr (u, lk)"
    "0 \<le> n_components self"
    "embed_unique L self 0 u [] (replicate (length u) (replicate (nat (n_components self)) 0)) = (calls, Inr filled)"
    "M = map (\<lambda>j. filled ! j) lk"
  using assms
  by (auto simp: transform_def np_empty_def split: sum.splits prod.splits if_splits)

lemma transform_Inr_facts:
  assumes wf: "wellformed X0" and tr: "transform L self X0 = (calls, Inr M)"
  shows "shape_supported X0" and "items X0 \<noteq> []" and "list_all isinstance_str (items X0)"
    and "0 \<le> n_components self"
    and "distinct calls" and "set calls = set (items X0)" and "length calls = card (set (items X0))"
    and "length M = length (items X0)"
    and "\<forall>i<length (items X0). \<exists>m v. ft_model self = Some m
            \<and> get_sentence_vector L m (items X0 ! i) = Inr v
            \<and> broadcast_row (n_components self) v = Inr (M ! i)"
    and "\<forall>i<length (items X0). \<forall>j<length (items X0). items X0 ! i = items X0 ! j \<longrightarrow> M ! i = M ! j"
proof -
  from tr obtain X u lk filled where
    cs: "check_shape X0 = Inr X" and cf: "check_first_str X = Inr ()"
    and un: "np_unique (items X) = Inr (u, lk)" and n0: "0 \<le> n_components self"
    and lp: "embed_unique L self 0 u [] (replicate (length u) (replicate (nat (n_components self)) 0)) = (calls, Inr filled)"
    and M: "M = map (\<lambda>j. filled ! j) lk"
    by (rule transform_Inr_dest)
  from check_shape_flat [OF wf cs] have it: "items X = items X0" and sh: "shape X = [length (items X)]"
    by simp_all
  from cs show "shape_supported X0" using check_shape_Inr_iff by blast
  from cf sh have ne: "items X \<noteq> []" and first: "isinstance_str (hd (items X))"
    using check_first_str_iff [of X] by simp_all
  from ne it show "items X0 \<noteq> []" by simp
  from np_unique_str_first(1) [OF ne first] un it show "list_all isinstance_str (items X0)" by auto
  from n0 show "0 \<le> n_components self" .
  from np_unique_Inr [OF un] it have
    du: "distinct u" and su: "set u = set (items X0)" and cu: "length u = card (set (items X0))"
    and ll: "length lk = length (items X0)"
    and ix: "\<forall>i<length (items X0). lk ! i < length u \<and> u ! (lk ! i) = items X0 ! i"
    by simp_all
  from embed_unique_Inr [OF lp] have
    cl: "calls = u" and
    rows: "\<forall>j<length u. \<exists>m v. ft_model self = Some m \<and> get_sentence_vector L m (u ! j) = Inr v
            \<and> broadcast_row (n_components self) v = Inr (filled ! j)"
    by simp_all
  from cl du show "distinct calls" by simp
  from cl su show "set calls = set (items X0)" by simp
  from cl cu show "length calls = card (set (items X0))" by simp
  from M ll show "length M = length (items X0)" by simp
  have Mi: "\<And>i. i < length (items X0) \<Longrightarrow> M ! i = filled ! (lk ! i)"
    using M ll by simp
  show "\<forall>i<length (items X0). \<exists>m v. ft_model self = Some m
            \<and> get_sentence_vector L m (items X0 ! i) = Inr v
            \<and> broadcast_row (n_components self) v = Inr (M ! i)"
  proof (intro allI impI)
    fix i assume i: "i < length (items X0)"
    with ix have b: "lk ! i < length u" and e: "u ! (lk ! i) = items X0 ! i" by simp_all
    from rows b obtain m v where "ft_model self = Some m"
      "get_sentence_vector L m (u ! (lk ! i)) = Inr v"
      "broadcast_row (n_components self) v = Inr (filled ! (lk ! i))" by blast
    with e Mi [OF i] show "\<exists>m v. ft_model self = Some m
            \<and> get_sentence_vector L m (items X0 ! i) = Inr v
            \<and> broadcast_row (n_components self) v = Inr (M ! i)" by simp
  qed
  show "\<forall>i<length (items X0). \<forall>j<length (items X0). items X0 ! i = items X0 ! j \<longrightarrow> M ! i = M ! j"
  proof (intro allI impI)
    fix i j assume i: "i < length (items X0)" and j: "j < length (items X0)"
      and eq: "items X0 ! i = items X0 ! j"
    from ix i j have "lk ! i < length u" "lk ! j < length u" "u ! (lk ! i) = u ! (lk ! j)"
      using eq by simp_all
    with du have "lk ! i = lk ! j" by (simp add: nth_eq_iff_index_eq)
    with Mi [OF i] Mi [OF j] show "M ! i = M ! j" by simp
  qed
qed

lemma transform_succeeds:
  assumes wf: "wellformed X0" and ok: "shape_supported X0" and ne: "items X0 \<noteq> []"
    and strs: "list_all isinstance_str (items X0)" and n0: "0 \<le> n_components self"
    and m: "ft_model self = Some m"
    and prov: "\<forall>x\<in>set (items X0). \<exists>v row. get_sentence_vector L m x = Inr v
                 \<and> broadcast_row (n_components self) v = Inr row"
  shows "\<exists>calls M. transform L self X0 = (calls, Inr M)"
proof -
  from ok obtain X where cs: "check_shape X0 = Inr X" using check_shape_Inr_iff by blast
  from check_shape_flat [OF wf cs] have it: "items X = items X0" and sh: "shape X = [length (items X)]"
    by simp_all
  from strs ne have "isinstance_str (hd (items X0))" by (cases "items X0") auto
  with ne it sh have cf: "check_first_str X = Inr ()" using check_first_str_iff [of X] by simp
  from strs it have "np_unique (items X) = Inr (map PyStr (fst (unique_inverse (map str_of (items X)))),
      snd (unique_inverse (map str_of (items X))))"
    by (simp add: np_unique_def case_prod_beta)
  then obtain u lk where un: "np_unique (items X) = Inr (u, lk)" by blast
  from np_unique_Inr [OF un] it have su: "set u = set (items X0)" by simp
  with prov have "\<forall>x\<in>set u. \<exists>v row. get_sentence_vector L m x = Inr v
                 \<and> broadcast_row (n_components self) v = Inr row" by simp
  from embed_unique_succeeds [OF m this]
  obtain filled where
    "embed_unique L self 0 u [] (replicate (length u) (replicate (nat (n_components self)) 0)) = ([] @ u, Inr filled)"
    by blast
  with cs cf un n0 show ?thesis by (simp add: transform_def np_empty_def)
qed

lemma transform_calls_prefix:
  assumes wf: "wellformed X0"
  shows "\<exists>u k. distinct u \<and> set u \<subseteq> set (items X0) \<and> length u \<le> card (set (items X0))
                \<and> fst (transform L self X0) = take k u"
proof -
  have trivial: "fst (transform L self X0) = [] \<Longrightarrow> ?thesis"
  proof -
    assume "fst (transform L self X0) = []"
    then have "distinct ([]::pyval list) \<and> set [] \<subseteq> set (items X0) \<and> length ([]::pyval list) \<le> card (set (items X0))
                \<and> fst (transform L self X0) = take 0 []" by simp
    then show ?thesis by blast
  qed
  show ?thesis
  proof (cases "check_shape X0")
    case (Inl e)
    then show ?thesis by (intro trivial) (simp add: transform_def)
  next
    case cs: (Inr X)
    from check_shape_flat [OF wf cs] have it: "items X = items X0" by simp
    show ?thesis
    proof (cases "check_first_str X")
      case (Inl e)
      with cs show ?thesis by (intro trivial) (simp add: transform_def)
    next
      case cf: (Inr a)
      show ?thesis
      proof (cases "np_unique (items X)")
        case (Inl e)
        with cs cf show ?thesis by (intro trivial) (simp add: transform_def)
      next
        case (Inr r)
        then obtain u lk where un: "np_unique (items X) = Inr (u, lk)" by (cases r) auto
        from np_unique_Inr [OF un] it have du: "distinct u" and su: "set u = set (items X0)"
          and cu: "length u = card (set (items X0))" by simp_all
        show ?thesis
        proof (cases "n_components self < 0")
          case True
          with cs cf un show ?thesis by (intro trivial) (simp add: transform_def np_empty_def)
        next
          case False
          let ?out = "replicate (length u) (replicate (nat (n_components self)) 0)"
          from embed_unique_calls [of u L self 0 "[]" ?out]
          obtain k where k: "fst (embed_unique L self 0 u [] ?out) = take k u" by auto
          from cs cf un False have "fst (transform L self X0) = fst (embed_unique L self 0 u [] ?out)"
            by (simp add: transform_def np_empty_def split: prod.splits sum.splits)
          with k du su cu show ?thesis by auto
        qed
      qed
    qed
  qed
qed

lemma toy_transform_cat_horse_cat:
  "transform toy toy_embedder cat_horse_cat
     = ([PyStr ''cat'', PyStr ''horse''], Inr [[3, 3], [5, 5], [3, 3]])"
  by (simp add: transform_def check_shape_def shape_supported_def ndim_def check_first_str_def
      getitem0_def np_unique_def unique_inverse_def np_empty_def broadcast_row_def
      toy_def toy_embedder_def cat_horse_cat_def eval_nat_numeral)


lemma str_nat_small: "n < 10 \<Longrightarrow> str_nat n = [digit_char n]"
  by (simp add: str_nat.simps)

lemma shape_message_5_2:
  "shape_message [5, 2] = ''ERROR:        shape (5, 2) of input array is not supported.''"
  by (simp add: shape_message_def tuple_repr_def str_nat_small digit_char_def eval_nat_numeral)

lemma transform_row_width:
  assumes "transform L self X0 = (calls, Inr M)"
  shows "\<forall>row\<in>set M. int (length row) = n_components self"
proof
  fix row assume r: "row \<in> set M"
  from assms obtain X u lk filled where
    "check_shape X0 = Inr X" and "check_first_str X = Inr ()" and
    un: "np_unique (items X) = Inr (u, lk)" and n0: "0 \<le> n_components self"
    and lp: "embed_unique L self 0 u [] (replicate (length u) (replicate (nat (n_components self)) 0)) = (calls, Inr filled)"
    and M: "M = map (\<lambda>j. filled ! j) lk"
    by (rule transform_Inr_dest)
  from r M obtain i where i: "i < length lk" and row: "row = filled ! (lk ! i)"
    by (auto simp: in_set_conv_nth)
  from np_unique_Inr(4,5) [OF un] i have b: "lk ! i < length u" by simp
  from embed_unique_Inr [OF lp] b obtain v where
    "broadcast_row (n_components self) v = Inr (filled ! (lk ! i))" by auto
  from broadcast_row_length [OF this n0] row show "int (length row) = n_components self" by simp
qed

lemma check_shape_column:
  assumes "length xs = n"
  shows "check_shape \<lparr> shape = [n, 1], items = xs \<rparr> = Inr \<lparr> shape = [n], items = xs \<rparr>"
    and "check_shape \<lparr> shape = [n], items = xs \<rparr> = Inr \<lparr> shape = [n], items = xs \<rparr>"
proof -
  have "map (\<lambda>i. xs ! i) [0..<n] = xs" using assms map_nth [of xs] by simp
  then show "check_shape \<lparr> shape = [n, 1], items = xs \<rparr> = Inr \<lparr> shape = [n], items = xs \<rparr>"
    by (simp add: check_shape_def shape_supported_def ndim_def column0_def)
  show "check_shape \<lparr> shape = [n], items = xs \<rparr> = Inr \<lparr> shape = [n], items = xs \<rparr>"
    by (simp add: check_shape_def shape_supported_def ndim_def)
qed

lemma str_int_300: "str_int 300 = ''300''"
  by (simp add: str_int_def str_nat.simps digit_char_def)

lemma str_int_50: "str_int 50 = ''50''"
  by (simp add: str_int_def str_nat.simps digit_char_def)

lemma str_int_500: "str_int 500 = ''500''"
  by (simp add: str_int_def str_nat.simps digit_char_def)

lemma os_path_join_relative:
  "b \<noteq> [] \<Longrightarrow> hd b \<noteq> CHR ''/'' \<Longrightarrow>
     os_path_join a b = (if a = [] \<or> last a = CHR ''/'' then a else a @ ''/'') @ b"
  by (simp add: os_path_join_def)

lemma model_paths_differ:
  "os_path_join dir (''cc.'' @ lang @ ''.50.bin'') \<noteq> os_path_join dir (''cc.'' @ lang @ ''.300.bin'')"
  by (simp add: os_path_join_relative)

lemma not_found_message_text:
  "not_found_message p = ''The file '' @ p @ '' doesn'' @ [CHR 0x27]
     @ ''t exist.                Download it with self.download_model(), or from                https://fasttext.cc/docs/en/crawl-vectors.html.                Then load it manually with self.load_model().''"
  by (simp add: not_found_message_def eval_nat_numeral)

section \<open>Properties of \<^verbatim>\<open>transform\<close>\<close>

text \<open>
  Claim C1. Let the array be well formed, the model loaded, and the provider give vectors
  of \<open>n_components\<close> items for the values of the array. Then \<^verbatim>\<open>transform\<close> returns a
  matrix exactly when the shape is supported, the array is not empty, its items are strings
  and the provider embeds each of them; and the matrix it returns holds at every position
  the vector the provider gives for the item there: it is the result of calling the
  provider once for every row, whatever values repeat.
\<close>

theorem transform_equals_provider_per_row:
  assumes "wellformed X" and "ft_model self = Some m"
    and "\<forall>x\<in>set (items X). \<forall>v. get_sentence_vector L m x = Inr v \<longrightarrow> int (length v) = n_components self"
  shows "((\<exists>calls M. transform L self X = (calls, Inr M)) \<longleftrightarrow>
            shape_supported X \<and> items X \<noteq> [] \<and> list_all isinstance_str (items X)
            \<and> (\<forall>x\<in>set (items X). \<exists>v. get_sentence_vector L m x = Inr v))
       \<and> (\<forall>calls M. transform L self X = (calls, Inr M) \<longrightarrow>
            length M = length (items X)
            \<and> (\<forall>i<length (items X). get_sentence_vector L m (items X ! i) = Inr (M ! i))
            \<and> map Inr M = embed_each_row L m (items X))"
proof -
  have rows: "length M = length (items X)
      \<and> (\<forall>i<length (items X). get_sentence_vector L m (items X ! i) = Inr (M ! i))"
    if tr: "transform L self X = (calls, Inr M)" for calls M
  proof -
    note f = transform_Inr_facts [OF assms(1) tr]
    have "get_sentence_vector L m (items X ! i) = Inr (M ! i)" if i: "i < length (items X)" for i
    proof -
      from f(9) i obtain m' v where m': "ft_model self = Some m'"
        and v: "get_sentence_vector L m' (items X ! i) = Inr v"
        and b: "broadcast_row (n_components self) v = Inr (M ! i)" by blast
      from m' assms(2) have mm: "m' = m" by simp
      from i have "items X ! i \<in> set (items X)" by simp
      with assms(3) v mm have "int (length v) = n_components self" by blast
      from broadcast_row_exact [OF this] b have "M ! i = v" by simp
      with v mm show ?thesis by simp
    qed
    with f(8) show ?thesis by blast
  qed
  have naive: "map Inr M = embed_each_row L m (items X)"
    if tr: "transform L self X = (calls, Inr M)" for calls M
    using rows [OF tr] by (auto simp: embed_each_row_def list_eq_iff_nth_eq)
  have succ_only_if: "shape_supported X \<and> items X \<noteq> [] \<and> list_all isinstance_str (items X)
            \<and> (\<forall>x\<in>set (items X). \<exists>v. get_sentence_vector L m x = Inr v)"
    if tr: "transform L self X = (calls, Inr M)" for calls M
  proof -
    note f = transform_Inr_facts [OF assms(1) tr]
    have "\<exists>v. get_sentence_vector L m x = Inr v" if "x \<in> set (items X)" for x
    proof -
      from that obtain i where "i < length (items X)" "items X ! i = x"
        by (auto simp: in_set_conv_nth)
      with rows [OF tr] show ?thesis by auto
    qed
    with f(1,2,3) show ?thesis by blast
  qed
  have succ_if: "\<exists>calls M. transform L self X = (calls, Inr M)"
    if ok: "shape_supported X" and ne: "items X \<noteq> []" and strs: "list_all isinstance_str (items X)"
      and prov: "\<forall>x\<in>set (items X). \<exists>v. get_sentence_vector L m x = Inr v"
  proof -
    have good: "\<forall>x\<in>set (items X). \<exists>v row. get_sentence_vector L m x = Inr v
                 \<and> broadcast_row (n_components self) v = Inr row"
    proof
      fix x assume x: "x \<in> set (items X)"
      with prov obtain v where v: "get_sentence_vector L m x = Inr v" by blast
      with assms(3) x have "int (length v) = n_components self" by blast
      from broadcast_row_exact [OF this] v
      show "\<exists>v row. get_sentence_vector L m x = Inr v \<and> broadcast_row (n_components self) v = Inr row"
        by blast
    qed
    from ne obtain x where x: "x \<in> set (items X)" by (cases "items X") auto
    with prov obtain v where "get_sentence_vector L m x = Inr v" by blast
    with assms(3) x have "int (length v) = n_components self" by blast
    then have n0: "0 \<le> n_components self" by simp
    from transform_succeeds [OF assms(1) ok ne strs n0 assms(2) good] show ?thesis .
  qed
  from rows naive succ_only_if succ_if show ?thesis by blast
qed

theorem transform_equals_provider_per_row_witness:
  "wellformed cat_horse_cat \<and> ft_model toy_embedder = Some 2
   \<and> transform toy toy_embedder cat_horse_cat
       = ([PyStr ''cat'', PyStr ''horse''], Inr [[3, 3], [5, 5], [3, 3]])
   \<and> map Inr [[3, 3], [5, 5], [3, 3]] = embed_each_row toy 2 (items cat_horse_cat)"
proof -
  have h1: "wellformed cat_horse_cat" by (simp add: wellformed_def cat_horse_cat_def)
  have h2: "ft_model toy_embedder = Some 2" by (simp add: toy_embedder_def)
  have h3: "\<forall>x\<in>set (items cat_horse_cat). \<forall>v. get_sentence_vector toy 2 x = Inr v
              \<longrightarrow> int (length v) = n_components toy_embedder"
    by (auto simp: cat_horse_cat_def toy_def toy_embedder_def)
  from transform_equals_provider_per_row [OF h1 h2 h3] toy_transform_cat_horse_cat
  have "map Inr [[3, 3], [5, 5], [3, 3]] = embed_each_row toy 2 (items cat_horse_cat)"
    by blast
  with h1 h2 toy_transform_cat_horse_cat show ?thesis by simp
qed

text \<open>
  Claim C2. The calls \<^verbatim>\<open>transform\<close> makes to the provider are for pairwise different
  values of the array, so never more than the number of distinct values; when it returns
  a matrix it has called the provider once for each distinct value, and two positions
  that hold the same value get the same row.
\<close>

theorem transform_one_call_per_distinct_value:
  assumes "wellformed X" and "transform L self X = (calls, res)"
  shows "distinct calls \<and> set calls \<subseteq> set (items X) \<and> length calls \<le> card (set (items X))
       \<and> (\<forall>M. res = Inr M \<longrightarrow>
            set calls = set (items X) \<and> length calls = card (set (items X))
            \<and> (\<forall>i<length (items X). \<forall>j<length (items X).
                  items X ! i = items X ! j \<longrightarrow> M ! i = M ! j))"
proof -
  from transform_calls_prefix [OF assms(1), of L self] assms(2)
  obtain u k where u: "distinct u" "set u \<subseteq> set (items X)" "length u \<le> card (set (items X))"
    and c: "calls = take k u" by auto
  from u(1) c have d: "distinct calls" by simp
  from u(2) c have s: "set calls \<subseteq> set (items X)" by (auto dest: in_set_takeD)
  from u(3) c have l: "length calls \<le> card (set (items X))" by simp
  have "set calls = set (items X) \<and> length calls = card (set (items X))
            \<and> (\<forall>i<length (items X). \<forall>j<length (items X).
                  items X ! i = items X ! j \<longrightarrow> M ! i = M ! j)" if "res = Inr M" for M
  proof -
    from assms(2) that have tr: "transform L self X = (calls, Inr M)" by simp
    note f = transform_Inr_facts [OF assms(1) tr]
    from f(6) f(7) f(10) show ?thesis by blast
  qed
  with d s l show ?thesis by blast
qed

theorem transform_one_call_per_distinct_value_witness:
  "wellformed cat_horse_cat
   \<and> transform toy toy_embedder cat_horse_cat
       = ([PyStr ''cat'', PyStr ''horse''], Inr [[3, 3], [5, 5], [3, 3]])
   \<and> length [PyStr ''cat'', PyStr ''horse''] = card (set (items cat_horse_cat))
   \<and> items cat_horse_cat ! 0 = items cat_horse_cat ! 2
   \<and> [[3, 3], [5, 5], [3, 3]] ! 0 = ([[3, 3], [5, 5], [3, 3::real]] ! 2)"
proof -
  have h1: "wellformed cat_horse_cat" by (simp add: wellformed_def cat_horse_cat_def)
  from transform_one_call_per_distinct_value [OF h1 toy_transform_cat_horse_cat]
  have "length [PyStr ''cat'', PyStr ''horse''] = card (set (items cat_horse_cat))" by simp
  with h1 toy_transform_cat_horse_cat show ?thesis by (simp add: cat_horse_cat_def)
qed

text \<open>
  Claim C3. The matrix \<^verbatim>\<open>transform\<close> returns has one row for every element of the input
  (\<open>shape[0]\<close> of them, also for a single column) and every row has \<open>n_components\<close> items.
\<close>

theorem transform_output_shape:
  assumes "wellformed X" and "transform L self X = (calls, Inr M)"
  shows "length M = shape X ! 0 \<and> (\<forall>row\<in>set M. int (length row) = n_components self)"
proof -
  note f = transform_Inr_facts [OF assms]
  from f(1) obtain n where "shape X = [n] \<or> shape X = [n, 1]"
    using shape_supported_cases by blast
  with assms(1) have "shape X ! 0 = length (items X)" by (auto simp: wellformed_def)
  with f(8) have len: "length M = shape X ! 0" by simp
  have "int (length row) = n_components self" if "row \<in> set M" for row
  proof -
    from that f(8) obtain i where i: "i < length (items X)" and r: "M ! i = row"
      by (auto simp: in_set_conv_nth)
    from f(9) i obtain v where "broadcast_row (n_components self) v = Inr (M ! i)" by blast
    from broadcast_row_length [OF this f(4)] r show ?thesis by simp
  qed
  with len show ?thesis by blast
qed

theorem transform_output_shape_witness:
  "wellformed cat_horse_cat
   \<and> transform toy toy_embedder cat_horse_cat
       = ([PyStr ''cat'', PyStr ''horse''], Inr [[3, 3], [5, 5], [3, 3]])
   \<and> length [[3, 3], [5, 5], [3, 3::real]] = shape cat_horse_cat ! 0
   \<and> list_all (\<lambda>row. int (length row) = n_components toy_embedder) [[3, 3], [5, 5], [3, 3::real]]"
proof -
  have h1: "wellformed cat_horse_cat" by (simp add: wellformed_def cat_horse_cat_def)
  from transform_output_shape [OF h1 toy_transform_cat_horse_cat]
  have "length [[3, 3], [5, 5], [3, 3::real]] = shape cat_horse_cat ! 0"
    and "\<forall>row\<in>set [[3, 3], [5, 5], [3, 3::real]]. int (length row) = n_components toy_embedder"
    by simp_all
  with h1 toy_transform_cat_horse_cat show ?thesis by (simp add: list_all_iff)
qed

text \<open>
  Claim C10. On the empty 1-D array \<^verbatim>\<open>transform\<close> returns no matrix: reading the first
  item for the type check raises \<^verbatim>\<open>IndexError\<close>, and the provider has not been called.
\<close>

theorem transform_empty_input_raises:
  "transform L self \<lparr> shape = [0], items = [] \<rparr> = ([], Inl IndexError)"
  by (simp add: transform_def check_shape_def shape_supported_def ndim_def check_first_str_def
      getitem0_def)

text \<open>
  Claim C4. The check of the shape passes exactly for a 1-D array and for a 2-D array with
  one column; for every other shape, such as \<open>(5, 2)\<close>, \<^verbatim>\<open>transform\<close> raises the
  assertion error whose message names the shape, before any call to the provider. On a
  single column \<^verbatim>\<open>transform\<close> does what it does on the 1-D array of the same values.
\<close>

theorem transform_shape_check:
  "((\<exists>X1. check_shape X = Inr X1) \<longleftrightarrow> (\<exists>n. shape X = [n] \<or> shape X = [n, 1]))
   \<and> (\<not> (\<exists>n. shape X = [n] \<or> shape X = [n, 1]) \<longrightarrow>
        transform L self X = ([], Inl (AssertionError (shape_message (shape X)))))
   \<and> (shape X = [5, 2] \<longrightarrow>
        transform L self X
          = ([], Inl (AssertionError ''ERROR:        shape (5, 2) of input array is not supported.'')))
   \<and> (length xs = n \<longrightarrow>
        transform L self \<lparr> shape = [n, 1], items = xs \<rparr>
          = transform L self \<lparr> shape = [n], items = xs \<rparr>)"
proof -
  have a: "(\<exists>X1. check_shape X = Inr X1) \<longleftrightarrow> (\<exists>n. shape X = [n] \<or> shape X = [n, 1])"
    using check_shape_Inr_iff shape_supported_cases by simp
  have b: "transform L self X = ([], Inl (AssertionError (shape_message (shape X))))"
    if "\<not> (\<exists>n. shape X = [n] \<or> shape X = [n, 1])"
  proof -
    from that have "\<not> shape_supported X" using shape_supported_cases by simp
    then show ?thesis by (simp add: transform_def check_shape_def)
  qed
  have c: "transform L self X
          = ([], Inl (AssertionError ''ERROR:        shape (5, 2) of input array is not supported.''))"
    if s: "shape X = [5, 2]"
  proof -
    from s have "\<not> (\<exists>n. shape X = [n] \<or> shape X = [n, 1])" by simp
    from b [OF this] s shape_message_5_2 show ?thesis by simp
  qed
  have d: "transform L self \<lparr> shape = [n, 1], items = xs \<rparr>
          = transform L self \<lparr> shape = [n], items = xs \<rparr>" if "length xs = n"
    using check_shape_column [OF that] by (simp add: transform_def)
  from a b c d show ?thesis by blast
qed

theorem transform_shape_check_witness:
  "shape five_by_two = [5, 2]
   \<and> transform toy toy_embedder five_by_two
        = ([], Inl (AssertionError ''ERROR:        shape (5, 2) of input array is not supported.''))
   \<and> length (items cat_horse_cat) = 3
   \<and> transform toy toy_embedder \<lparr> shape = [3, 1], items = items cat_horse_cat \<rparr>
        = ([PyStr ''cat'', PyStr ''horse''], Inr [[3, 3], [5, 5], [3, 3]])"
proof -
  have h1: "shape five_by_two = [5, 2]" by (simp add: five_by_two_def)
  have h2: "length (items cat_horse_cat) = 3" by (simp add: cat_horse_cat_def)
  have flat: "\<lparr> shape = [3], items = items cat_horse_cat \<rparr> = cat_horse_cat"
    by (simp add: cat_horse_cat_def)
  from transform_shape_check [of five_by_two toy toy_embedder "items cat_horse_cat" 3] h1 h2
  have "transform toy toy_embedder five_by_two
        = ([], Inl (AssertionError ''ERROR:        shape (5, 2) of input array is not supported.''))"
    and "transform toy toy_embedder \<lparr> shape = [3, 1], items = items cat_horse_cat \<rparr>
        = transform toy toy_embedder \<lparr> shape = [3], items = items cat_horse_cat \<rparr>"
    by blast+
  with h1 h2 flat toy_transform_cat_horse_cat show ?thesis by simp
qed



section \<open>Properties of the constructor and of \<^verbatim>\<open>reduce_model\<close>\<close>

text \<open>
  Claim C5. \<^verbatim>\<open>reduce_model(k)\<close> raises the assertion error and leaves the instance as it
  was when \<open>k\<close> is not smaller than \<open>n_components\<close>. When it returns, \<open>k\<close> was smaller,
  \<open>n_components\<close> is \<open>k\<close> and every matrix \<^verbatim>\<open>transform\<close> returns afterwards has rows of
  \<open>k\<close> items. It returns for every smaller \<open>k\<close> on a loaded model for which the library's
  own reduction does not raise.
\<close>

theorem reduce_model_guard:
  "(\<not> k < n_components self \<longrightarrow>
       reduce_model L self k
         = Raised (AssertionError (reduce_message (n_components self) k)) self)
   \<and> (\<forall>s'. reduce_model L self k = Returned s' \<longrightarrow>
         k < n_components self \<and> n_components s' = k
         \<and> (\<forall>X calls M. transform L s' X = (calls, Inr M) \<longrightarrow>
               (\<forall>row\<in>set M. int (length row) = k)))
   \<and> (k < n_components self \<and> ft_model self = Some m \<and> ft_reduce_model L m k = (m', None) \<longrightarrow>
         reduce_model L self k = Returned (self\<lparr>n_components := k, ft_model := Some m'\<rparr>))"
proof -
  have a: "reduce_model L self k
         = Raised (AssertionError (reduce_message (n_components self) k)) self"
    if "\<not> k < n_components self"
    using that by (simp add: reduce_model_def)
  have b: "k < n_components self \<and> n_components s' = k
         \<and> (\<forall>X calls M. transform L s' X = (calls, Inr M) \<longrightarrow>
               (\<forall>row\<in>set M. int (length row) = k))"
    if r: "reduce_model L self k = Returned s'" for s'
  proof -
    from r have lt: "k < n_components self"
      by (auto simp: reduce_model_def split: if_splits)
    from r have n: "n_components s' = k"
      by (auto simp: reduce_model_def Let_def split: if_splits option.splits prod.splits)
    have "\<forall>row\<in>set M. int (length row) = k" if "transform L s' X = (calls, Inr M)" for X calls M
      using transform_row_width [OF that] n by simp
    with lt n show ?thesis by blast
  qed
  have c: "reduce_model L self k = Returned (self\<lparr>n_components := k, ft_model := Some m'\<rparr>)"
    if "k < n_components self" "ft_model self = Some m" "ft_reduce_model L m k = (m', None)"
    using that by (simp add: reduce_model_def)
  from a b c show ?thesis by blast
qed

theorem reduce_model_guard_witness:
  "\<not> (2::int) < n_components toy_embedder
   \<and> reduce_model toy toy_embedder 2
        = Raised (AssertionError ''Cannot expand embedding            size from 2 to 2.'') toy_embedder
   \<and> 1 < n_components toy_embedder \<and> ft_model toy_embedder = Some 2
   \<and> ft_reduce_model toy 2 1 = (1, None)
   \<and> reduce_model toy toy_embedder 1
        = Returned (toy_embedder\<lparr>n_components := 1, ft_model := Some 1\<rparr>)
   \<and> transform toy (toy_embedder\<lparr>n_components := 1, ft_model := Some 1\<rparr>) cat_horse_cat
        = ([PyStr ''cat'', PyStr ''horse''], Inr [[3], [5], [3]])
   \<and> list_all (\<lambda>row. int (length row) = 1) [[3], [5], [3::real]]"
proof -
  have h1: "\<not> (2::int) < n_components toy_embedder" by (simp add: toy_embedder_def)
  have h2: "1 < n_components toy_embedder" "ft_model toy_embedder = Some 2"
    "ft_reduce_model toy 2 1 = (1, None)"
    by (simp_all add: toy_embedder_def toy_def)
  have msg: "reduce_message (n_components toy_embedder) 2
      = ''Cannot expand embedding            size from 2 to 2.''"
    by (simp add: reduce_message_def toy_embedder_def str_int_def str_nat.simps digit_char_def
        eval_nat_numeral)
  have tr: "transform toy (toy_embedder\<lparr>n_components := 1, ft_model := Some 1\<rparr>) cat_horse_cat
        = ([PyStr ''cat'', PyStr ''horse''], Inr [[3], [5], [3]])"
    by (simp add: transform_def check_shape_def shape_supported_def ndim_def check_first_str_def
      getitem0_def np_unique_def unique_inverse_def np_empty_def broadcast_row_def
      toy_def toy_embedder_def cat_horse_cat_def)
  from reduce_model_guard [of 2 toy_embedder toy] h1 msg
  have r1: "reduce_model toy toy_embedder 2
        = Raised (AssertionError ''Cannot expand embedding            size from 2 to 2.'') toy_embedder"
    by simp
  from reduce_model_guard [of 1 toy_embedder toy 2 1] h2
  have r2: "reduce_model toy toy_embedder 1
        = Returned (toy_embedder\<lparr>n_components := 1, ft_model := Some 1\<rparr>)"
    by blast
  from reduce_model_guard [of 1 toy_embedder toy 2 1] r2 tr
  have r3: "\<forall>row\<in>set [[3], [5], [3::real]]. int (length row) = 1" by blast
  from h1 h2 r1 r2 tr r3 show ?thesis by (simp add: list_all_iff)
qed

text \<open>
  Claim C6. The constructor called with \<open>n_components = 500\<close> and no file name records
  300 components, but the file it resolves is named after 500, not after 300;
  \<^verbatim>\<open>save_model\<close> on that instance writes the file named after 300.
\<close>

theorem init_file_name_ignores_clamp:
  "n_components (init_attributes 500 ''en'' ''./fastText_bins'' None :: 'm embedder) = 300
   \<and> file_path (init_attributes 500 ''en'' ''./fastText_bins'' None :: 'm embedder)
        = ''./fastText_bins/cc.en.500.bin''
   \<and> file_path (init_attributes 500 ''en'' ''./fastText_bins'' None :: 'm embedder)
        \<noteq> os_path_join ''./fastText_bins'' (model_file_name ''en'' 300)
   \<and> os_path_isfile
        (fst (save_model L fs
                ((init_attributes 500 ''en'' ''./fastText_bins'' None)\<lparr>ft_model := Some m\<rparr>) None))
        ''./fastText_bins/cc.en.300.bin''"
  by (simp add: init_attributes_def model_file_name_def os_path_join_def str_int_500 str_int_300
      save_model_def os_path_isfile_def)

text \<open>
  Claim C7. When neither the requested file nor the 300-dimensional file of the language
  is in the storage directory, the constructor raises \<^verbatim>\<open>FileNotFoundError\<close>; the message
  names the path of the 300-dimensional file and tells to download the model or to load it
  by hand. \<^verbatim>\<open>load_model\<close> leaves the instance as the constructor prepared it, without a
  model.
\<close>

theorem init_model_not_found:
  fixes L :: "('f, 'm) fasttext"
  assumes "\<not> os_path_isfile fs (os_path_join dir
              (case file_name of None \<Rightarrow> ''cc.'' @ lang @ ''.'' @ str_int n @ ''.bin''
               | Some name \<Rightarrow> name))"
    and "\<not> os_path_isfile fs (os_path_join dir (''cc.'' @ lang @ ''.300.bin''))"
  shows "init L fs n lang dir file_name
           = (fs, Inl (FileNotFoundError
                (''The file '' @ os_path_join dir (''cc.'' @ lang @ ''.300.bin'') @ '' doesn'' @ [CHR 0x27]
                 @ ''t exist.                Download it with self.download_model(), or from                https://fasttext.cc/docs/en/crawl-vectors.html.                Then load it manually with self.load_model().'')))
       \<and> (\<exists>e. load_model L fs (init_attributes n lang dir file_name)
                 = Raised e (init_attributes n lang dir file_name))
       \<and> ft_model (init_attributes n lang dir file_name :: 'm embedder) = None"
proof -
  let ?self = "init_attributes n lang dir file_name :: 'm embedder"
  let ?p300 = "os_path_join dir (''cc.'' @ lang @ ''.300.bin'')"
  have p: "file_path ?self = os_path_join dir
              (case file_name of None \<Rightarrow> ''cc.'' @ lang @ ''.'' @ str_int n @ ''.bin''
               | Some name \<Rightarrow> name)"
    by (simp add: init_attributes_def model_file_name_def split: option.splits)
  have q: "os_path_join (bin_dir ?self) (model_file_name (language ?self) 300) = ?p300"
    by (simp add: init_attributes_def model_file_name_def str_int_300)
  have ld: "load_model L fs ?self = Raised (FileNotFoundError (not_found_message ?p300)) ?self"
    using assms unfolding load_model_def Let_def p q by simp
  then have "init L fs n lang dir file_name = (fs, Inl (FileNotFoundError (not_found_message ?p300)))"
    by (simp add: init_def)
  moreover have "ft_model ?self = None" by (simp add: init_attributes_def)
  ultimately show ?thesis using ld
    by (simp add: not_found_message_text)
qed

theorem init_model_not_found_witness:
  "\<not> os_path_isfile (Map.empty :: nat filesystem) ''./fastText_bins/cc.en.50.bin''
   \<and> \<not> os_path_isfile (Map.empty :: nat filesystem) ''./fastText_bins/cc.en.300.bin''
   \<and> snd (init toy Map.empty 50 ''en'' ''./fastText_bins'' None)
        = Inl (FileNotFoundError (''The file ./fastText_bins/cc.en.300.bin doesn'' @ [CHR 0x27]
                 @ ''t exist.                Download it with self.download_model(), or from                https://fasttext.cc/docs/en/crawl-vectors.html.                Then load it manually with self.load_model().''))"
proof -
  have j1: "os_path_join ''./fastText_bins''
              (case None of None \<Rightarrow> ''cc.'' @ ''en'' @ ''.'' @ str_int 50 @ ''.bin''
               | Some name \<Rightarrow> name) = ''./fastText_bins/cc.en.50.bin''"
    by (simp add: os_path_join_def str_int_50)
  have j2: "os_path_join ''./fastText_bins'' (''cc.'' @ ''en'' @ ''.300.bin'')
              = ''./fastText_bins/cc.en.300.bin''"
    by (simp add: os_path_join_def)
  have h1: "\<not> os_path_isfile (Map.empty :: nat filesystem) ''./fastText_bins/cc.en.50.bin''"
    and h2: "\<not> os_path_isfile (Map.empty :: nat filesystem) ''./fastText_bins/cc.en.300.bin''"
    by (simp_all add: os_path_isfile_def)
  from init_model_not_found [where L = toy and fs = Map.empty and dir = "''./fastText_bins''"
      and file_name = None and lang = "''en''" and n = 50] h1 h2
  have "snd (init toy Map.empty 50 ''en'' ''./fastText_bins'' None)
        = Inl (FileNotFoundError (''The file ./fastText_bins/cc.en.300.bin doesn'' @ [CHR 0x27]
                 @ ''t exist.                Download it with self.download_model(), or from                https://fasttext.cc/docs/en/crawl-vectors.html.                Then load it manually with self.load_model().''))"
    unfolding j1 j2 by simp
  with h1 h2 show ?thesis by simp
qed

text \<open>
  Claim C8. When the only file is the 300-dimensional model of the language and the
  library loads it and reduces it to 50 dimensions, the constructor called with
  \<open>n_components = 50\<close> and no file name returns an instance that holds the reduced model
  and has \<open>n_components = 50\<close>; every matrix \<^verbatim>\<open>transform\<close> returns for it has rows of 50
  items; the file system is as before, with no 50-dimensional file.
\<close>

theorem init_reduce_on_load:
  fixes L :: "('f, 'm) fasttext"
  assumes "dom fs = {os_path_join dir (''cc.'' @ lang @ ''.300.bin'')}"
    and "fs (os_path_join dir (''cc.'' @ lang @ ''.300.bin'')) = Some f"
    and "ft_load_model L f = Inr m"
    and "ft_reduce_model L m 50 = (m', None)"
  shows "init L fs 50 lang dir None
           = (fs, Inr \<lparr> n_components = 50, language = lang, bin_dir = dir,
                        file_path = os_path_join dir (''cc.'' @ lang @ ''.50.bin''),
                        ft_model = Some m' \<rparr>)
       \<and> \<not> os_path_isfile (fst (init L fs 50 lang dir None))
             (os_path_join dir (''cc.'' @ lang @ ''.50.bin''))
       \<and> (\<forall>self X calls M.
             snd (init L fs 50 lang dir None) = Inr self \<and> transform L self X = (calls, Inr M)
             \<longrightarrow> (\<forall>row\<in>set M. length row = 50))"
proof -
  let ?self = "init_attributes 50 lang dir None :: 'm embedder"
  let ?p50 = "os_path_join dir (''cc.'' @ lang @ ''.50.bin'')"
  let ?p300 = "os_path_join dir (''cc.'' @ lang @ ''.300.bin'')"
  have p: "file_path ?self = ?p50"
    by (simp add: init_attributes_def model_file_name_def str_int_50)
  have q: "os_path_join (bin_dir ?self) (model_file_name (language ?self) 300) = ?p300"
    by (simp add: init_attributes_def model_file_name_def str_int_300)
  have n: "n_components ?self = 50" by (simp add: init_attributes_def)
  from assms(1) model_paths_differ [of dir lang] have "?p50 \<notin> dom fs" by simp
  then have no50: "\<not> os_path_isfile fs ?p50" by (auto simp: os_path_isfile_def)
  from assms(2) have yes300: "os_path_isfile fs ?p300" by (simp add: os_path_isfile_def)
  have ld: "load_model L fs ?self = Returned (?self\<lparr>ft_model := Some m'\<rparr>)"
    unfolding load_model_def Let_def p q n using no50 yes300 assms(2,3,4) by simp
  have obj: "?self\<lparr>ft_model := Some m'\<rparr>
      = \<lparr> n_components = 50, language = lang, bin_dir = dir, file_path = ?p50, ft_model = Some m' \<rparr>"
    by (simp add: init_attributes_def model_file_name_def str_int_50)
  from ld obj have i: "init L fs 50 lang dir None
           = (fs, Inr \<lparr> n_components = 50, language = lang, bin_dir = dir,
                        file_path = ?p50, ft_model = Some m' \<rparr>)"
    by (simp add: init_def)
  have w: "\<forall>row\<in>set M. length row = 50"
    if "snd (init L fs 50 lang dir None) = Inr self \<and> transform L self X = (calls, Inr M)"
    for self X calls M
  proof -
    from that i have "n_components self = 50" by auto
    with transform_row_width [of L self X calls M] that show ?thesis by auto
  qed
  from i no50 w show ?thesis by auto
qed

theorem init_reduce_on_load_witness:
  "dom only_300 = {''./fastText_bins/cc.en.300.bin''}
   \<and> only_300 ''./fastText_bins/cc.en.300.bin'' = Some 300
   \<and> ft_load_model toy 300 = Inr 300 \<and> ft_reduce_model toy 300 50 = (50, None)
   \<and> init toy only_300 50 ''en'' ''./fastText_bins'' None
        = (only_300, Inr \<lparr> n_components = 50, language = ''en'', bin_dir = ''./fastText_bins'',
                        file_path = ''./fastText_bins/cc.en.50.bin'', ft_model = Some 50 \<rparr>)
   \<and> \<not> os_path_isfile only_300 ''./fastText_bins/cc.en.50.bin''
   \<and> (\<exists>calls M.
         transform toy \<lparr> n_components = 50, language = ''en'', bin_dir = ''./fastText_bins'',
                          file_path = ''./fastText_bins/cc.en.50.bin'', ft_model = Some 50 \<rparr>
           cat_horse_cat = (calls, Inr M)
         \<and> length M = 3 \<and> list_all (\<lambda>row. length row = 50) M)"
proof -
  let ?self = "\<lparr> n_components = 50, language = ''en'', bin_dir = ''./fastText_bins'',
                 file_path = ''./fastText_bins/cc.en.50.bin'', ft_model = Some (50::nat) \<rparr>"
  have j1: "os_path_join ''./fastText_bins'' (''cc.'' @ ''en'' @ ''.50.bin'')
              = ''./fastText_bins/cc.en.50.bin''"
    and j2: "os_path_join ''./fastText_bins'' (''cc.'' @ ''en'' @ ''.300.bin'')
              = ''./fastText_bins/cc.en.300.bin''"
    by (simp_all add: os_path_join_def)
  have h1: "dom only_300 = {''./fastText_bins/cc.en.300.bin''}"
    and h2: "only_300 ''./fastText_bins/cc.en.300.bin'' = Some 300"
    by (simp_all add: only_300_def)
  have h3: "ft_load_model toy 300 = Inr 300" and h4: "ft_reduce_model toy 300 50 = (50, None)"
    by (simp_all add: toy_def)
  note t = init_reduce_on_load [where L = toy and fs = only_300 and dir = "''./fastText_bins''"
      and lang = "''en''" and f = 300 and m = 300 and m' = 50, unfolded j1 j2, OF h1 h2 h3 h4]
  from t have r1: "init toy only_300 50 ''en'' ''./fastText_bins'' None = (only_300, Inr ?self)"
    by blast
  from t r1 have r2: "\<not> os_path_isfile only_300 ''./fastText_bins/cc.en.50.bin''" by simp
  have wf: "wellformed cat_horse_cat" and ok: "shape_supported cat_horse_cat"
    and ne: "items cat_horse_cat \<noteq> []" and strs: "list_all isinstance_str (items cat_horse_cat)"
    by (simp_all add: cat_horse_cat_def wellformed_def shape_supported_def ndim_def)
  have prov: "\<forall>x\<in>set (items cat_horse_cat). \<exists>v row. get_sentence_vector toy 50 x = Inr v
                 \<and> broadcast_row (n_components ?self) v = Inr row"
    by (simp add: cat_horse_cat_def toy_def broadcast_row_def)
  from transform_succeeds [OF wf ok ne strs _ _ prov]
  obtain calls M where tr: "transform toy ?self cat_horse_cat = (calls, Inr M)" by auto
  from transform_Inr_facts(8) [OF wf tr] have len: "length M = 3" by (simp add: cat_horse_cat_def)
  from t r1 tr have "\<forall>row\<in>set M. length row = 50" by simp
  then have "list_all (\<lambda>row. length row = 50) M" by (simp add: list_all_iff)
  with tr len have "\<exists>calls M. transform toy ?self cat_horse_cat = (calls, Inr M)
         \<and> length M = 3 \<and> list_all (\<lambda>row. length row = 50) M" by blast
  with h1 h2 h3 h4 r1 r2 show ?thesis by blast
qed

end
